theory Spec2Isabelle
  imports Complex_Main "HOL-Library.Multiset"
begin

section \<open>JavaScript values held by the container\<close>

text \<open>
  The container stores values of TypeScript type \<open>any\<close>. The only thing the container
  ever asks of a stored value is its truthiness (\<open>!service\<close>), so a value is modelled by
  its language type and by as much of its content as decides \<open>ToBoolean\<close>. A number is
  NaN, an infinity (the flag is the sign), negative zero, or a finite value, where
  \<open>NumFinite 0\<close> is positive zero. An object (a class instance, a function, an array) is
  its reference, so that two instances are equal exactly when they are the same instance.
\<close>

datatype jsnumber = NumNaN | NumInfinity bool | NumNegZero | NumFinite rat

datatype jsval =
    JUndefined
  | JNull
  | JBoolean bool
  | JNumber jsnumber
  | JBigInt int
  | JString string
  | JSymbol nat
  | JObject nat

text \<open>The abstract operation ToBoolean of the language, which \<open>!service\<close> negates.\<close>

fun ToBoolean :: "jsval \<Rightarrow> bool" where
  "ToBoolean JUndefined = False"
| "ToBoolean JNull = False"
| "ToBoolean (JBoolean b) = b"
| "ToBoolean (JNumber n) = (n \<noteq> NumNaN \<and> n \<noteq> NumNegZero \<and> n \<noteq> NumFinite 0)"
| "ToBoolean (JBigInt i) = (i \<noteq> 0)"
| "ToBoolean (JString s) = (s \<noteq> [])"
| "ToBoolean (JSymbol y) = True"
| "ToBoolean (JObject r) = True"

section \<open>The built-in Map\<close>

text \<open>
  \<open>Map<string, any>\<close> keeps its entries in insertion order: \<open>set\<close> on a key that is
  present replaces the value where the entry stands, \<open>set\<close> on a new key appends an
  entry, \<open>get\<close> on an absent key is \<open>undefined\<close>.
\<close>

type_synonym jsmap = "(string \<times> jsval) list"

fun Map_has :: "jsmap \<Rightarrow> string \<Rightarrow> bool" where
  "Map_has [] key = False"
| "Map_has ((k, v) # m) key = (if k = key then True else Map_has m key)"

fun Map_get :: "jsmap \<Rightarrow> string \<Rightarrow> jsval" where
  "Map_get [] key = JUndefined"
| "Map_get ((k, v) # m) key = (if k = key then v else Map_get m key)"

fun Map_set :: "jsmap \<Rightarrow> string \<Rightarrow> jsval \<Rightarrow> jsmap" where
  "Map_set [] key val = [(key, val)]"
| "Map_set ((k, v) # m) key val =
     (if k = key then (k, val) # m else (k, v) # Map_set m key val)"

section \<open>DIContainer\<close>

text \<open>
  \<^verbatim>\<open>
  class DIContainer {
    private services = new Map<string, any>();
    register<T>(name: string, service: T): void {
      this.services.set(name, service);
    }
    get<T>(name: string): T {
      const service = this.services.get(name);
      if (!service) {
        throw new Error(`Service ${name} not found`);
      }
      return service;
    }
  }
  \<close>
  A method call completes normally with a value (\<open>Inr\<close>; a \<open>void\<close> method gives
  \<open>undefined\<close>) or abruptly with the thrown error (\<open>Inl\<close>), and it returns the
  container as the call leaves it.
\<close>

record DIContainer =
  services :: jsmap

datatype error = Error string

type_synonym completion = "error + jsval"

definition new_DIContainer :: DIContainer where
  "new_DIContainer = \<lparr>services = []\<rparr>"

definition register :: "DIContainer \<Rightarrow> string \<Rightarrow> jsval \<Rightarrow> completion \<times> DIContainer" where
  "register this name service =
     (Inr JUndefined, this\<lparr>services := Map_set (services this) name service\<rparr>)"

definition get :: "DIContainer \<Rightarrow> string \<Rightarrow> completion \<times> DIContainer" where
  "get this name =
     (let service = Map_get (services this) name in
      if \<not> ToBoolean service
      then (Inl (Error (''Service '' @ name @ '' not found'')), this)
      else (Inr service, this))"

section \<open>Clients: sequences of calls\<close>

text \<open>A client calls the two methods in some sequence on a container it holds.\<close>

datatype call = Register string jsval | Get string

fun invoke :: "DIContainer \<Rightarrow> call \<Rightarrow> completion \<times> DIContainer" where
  "invoke c (Register name service) = register c name service"
| "invoke c (Get name) = get c name"

text \<open>
  The container after a sequence of calls; a caller that catches the error of a failed
  \<open>get\<close> goes on with the container as the call left it.
\<close>

fun run :: "call list \<Rightarrow> DIContainer \<Rightarrow> DIContainer" where
  "run [] c = c"
| "run (x # xs) c = run xs (snd (invoke c x))"

text \<open>The keys that a sequence of calls registers, in call order.\<close>

fun registered_keys :: "call list \<Rightarrow> string list" where
  "registered_keys [] = []"
| "registered_keys (Register name service # xs) = name # registered_keys xs"
| "registered_keys (Get name # xs) = registered_keys xs"

text \<open>The value of the latest registration of a key in a sequence of calls, if any.\<close>

fun last_registered :: "call list \<Rightarrow> string \<Rightarrow> jsval option" where
  "last_registered [] key = None"
| "last_registered (Register name service # xs) key =
     (case last_registered xs key of
        Some v \<Rightarrow> Some v
      | None \<Rightarrow> if name = key then Some service else None)"
| "last_registered (Get name # xs) key = last_registered xs key"

text \<open>Registering a list of key/value pairs, in list order.\<close>

fun registers :: "(string \<times> jsval) list \<Rightarrow> DIContainer \<Rightarrow> DIContainer" where
  "registers [] c = c"
| "registers ((k, v) # ps) c = registers ps (snd (register c k v))"

text \<open>Querying a list of keys, in list order: the completions, and the container left.\<close>

fun gets :: "string list \<Rightarrow> DIContainer \<Rightarrow> completion list \<times> DIContainer" where
  "gets [] c = ([], c)"
| "gets (k # ks) c =
     (let (r, c') = get c k; (rs, c'') = gets ks c' in (r # rs, c''))"

text \<open>The entries a map holds for one key.\<close>

definition entries :: "jsmap \<Rightarrow> string \<Rightarrow> jsval list" where
  "entries m key = map snd (filter (\<lambda>p. fst p = key) m)"

section \<open>Facts about the Map\<close>

lemma Map_get_map_of:
  "Map_get m key = (case map_of m key of None \<Rightarrow> JUndefined | Some v \<Rightarrow> v)"
  by (induction m key rule: Map_get.induct) auto

lemma Map_has_keys: "Map_has m key \<longleftrightarrow> key \<in> set (map fst m)"
  by (induction m key rule: Map_has.induct) auto

lemma map_of_Map_set: "map_of (Map_set m key val) = (map_of m)(key \<mapsto> val)"
  by (induction m key val rule: Map_set.induct) auto

lemma Map_get_Map_set:
  "Map_get (Map_set m key val) key' = (if key' = key then val else Map_get m key')"
  by (simp add: Map_get_map_of map_of_Map_set)

lemma keys_Map_set: "set (map fst (Map_set m key val)) = insert key (set (map fst m))"
  by (induction m key val rule: Map_set.induct) auto

lemma distinct_Map_set:
  "distinct (map fst m) \<Longrightarrow> distinct (map fst (Map_set m key val))"
proof (induction m key val rule: Map_set.induct)
  case (1 key val)
  show ?case by simp
next
  case (2 k v m key val)
  from 2 have "distinct (map fst (Map_set m key val))" if "k \<noteq> key"
    using that by simp
  moreover have "k \<notin> set (map fst (Map_set m key val))" if "k \<noteq> key"
    using that 2 by (simp only: keys_Map_set) auto
  ultimately show ?case using 2 by auto
qed

lemma Map_set_Map_set:
  "Map_set (Map_set m key v1) key v2 = Map_set m key v2"
  by (induction m key v1 rule: Map_set.induct) auto

lemma entries_Map_set_other:
  "key' \<noteq> key \<Longrightarrow> entries (Map_set m key val) key' = entries m key'"
  by (induction m key val rule: Map_set.induct) (auto simp: entries_def)

lemma entries_absent: "key \<notin> set (map fst m) \<Longrightarrow> entries m key = []"
  by (induction m) (auto simp: entries_def)

lemma entries_Map_set_same:
  "distinct (map fst m) \<Longrightarrow> entries (Map_set m key val) key = [val]"
proof (induction m key val rule: Map_set.induct)
  case (1 key val)
  show ?case by (simp add: entries_def)
next
  case (2 k v m key val)
  show ?case
  proof (cases "k = key")
    case True
    with 2 have "key \<notin> set (map fst m)" by simp
    then have "entries m key = []" by (rule entries_absent)
    with True show ?thesis by (simp add: entries_def)
  next
    case False
    with 2 have "entries (Map_set m key val) key = [val]" by simp
    with False show ?thesis by (simp add: entries_def)
  qed
qed

lemma Map_get_absent: "key \<notin> set (map fst m) \<Longrightarrow> Map_get m key = JUndefined"
  by (induction m key rule: Map_get.induct) auto

section \<open>Facts about the two methods\<close>

lemma fst_register: "fst (register c k v) = Inr JUndefined"
  by (simp add: register_def)

lemma services_register:
  "services (snd (register c k v)) = Map_set (services c) k v"
  by (simp add: register_def)

lemma snd_get: "snd (get c k) = c"
  by (simp add: get_def Let_def)

lemma fst_get:
  "fst (get c k) =
     (if ToBoolean (Map_get (services c) k) then Inr (Map_get (services c) k)
      else Inl (Error (''Service '' @ k @ '' not found'')))"
  by (simp add: get_def Let_def)

lemma register_register:
  "snd (register (snd (register c k v1)) k v2) = snd (register c k v2)"
  by (simp add: register_def Map_set_Map_set)

section \<open>Facts about sequences of calls\<close>

lemma keys_invoke:
  "set (map fst (services (snd (invoke c x)))) =
     set (map fst (services c)) \<union> set (registered_keys [x])"
  by (cases x) (simp_all add: services_register keys_Map_set snd_get del: set_map)

lemma keys_run:
  "set (map fst (services (run xs c))) = set (map fst (services c)) \<union> set (registered_keys xs)"
proof (induction xs arbitrary: c)
  case Nil
  show ?case by simp
next
  case (Cons x xs)
  have "set (registered_keys (x # xs)) = set (registered_keys [x]) \<union> set (registered_keys xs)"
    by (cases x) auto
  with Cons [of "snd (invoke c x)"] keys_invoke [of c x] show ?case
    by (simp only: run.simps) blast
qed

lemma distinct_invoke:
  "distinct (map fst (services c)) \<Longrightarrow> distinct (map fst (services (snd (invoke c x))))"
  by (cases x) (simp_all add: services_register distinct_Map_set snd_get)

lemma distinct_run:
  "distinct (map fst (services c)) \<Longrightarrow> distinct (map fst (services (run xs c)))"
  by (induction xs arbitrary: c) (simp_all add: distinct_invoke)

lemma entries_register:
  "distinct (map fst (services c)) \<Longrightarrow>
   entries (services (snd (register c name service))) key =
     (if name = key then [service] else entries (services c) key)"
  by (simp add: services_register entries_Map_set_same entries_Map_set_other)

lemma entries_run:
  "distinct (map fst (services c)) \<Longrightarrow>
   entries (services (run xs c)) key =
     (case last_registered xs key of None \<Rightarrow> entries (services c) key | Some v \<Rightarrow> [v])"
proof (induction xs arbitrary: c)
  case Nil
  show ?case by simp
next
  case (Cons x xs)
  show ?case
  proof (cases x)
    case (Register name service)
    from Cons.prems have d: "distinct (map fst (services (snd (register c name service))))"
      by (simp add: services_register distinct_Map_set)
    from Cons.IH [OF d] Cons.prems Register show ?thesis
      by (simp add: entries_register split: option.splits)
  next
    case (Get name)
    with Cons show ?thesis by (simp add: snd_get)
  qed
qed

lemma last_registered_None:
  "last_registered xs key = None \<longleftrightarrow> key \<notin> set (registered_keys xs)"
  by (induction xs key rule: last_registered.induct) (auto split: option.splits)

lemma snd_gets: "snd (gets ks c) = c"
  by (induction ks arbitrary: c) (simp_all add: snd_get split_beta Let_def)

lemma fst_gets: "fst (gets ks c) = map (\<lambda>k. fst (get c k)) ks"
  by (induction ks arbitrary: c) (simp_all add: snd_get split_beta Let_def)

lemma Map_get_registers:
  "Map_get (services (registers ps c)) k =
     (case map_of (rev ps) k of None \<Rightarrow> Map_get (services c) k | Some v \<Rightarrow> v)"
  by (induction ps c rule: registers.induct)
    (auto simp: services_register Map_get_Map_set map_add_def split: option.splits)

lemma map_of_perm:
  assumes "distinct (map fst ps)" "mset ps' = mset ps"
  shows "map_of (rev ps') = map_of (rev ps)"
proof -
  from assms(2) have "mset (map fst ps') = mset (map fst ps)" by simp
  with assms(1) have d: "distinct (map fst ps')"
    by (metis mset_eq_imp_distinct_iff)
  from assms(2) have s: "set ps' = set ps" by (rule mset_eq_setD)
  have "distinct (map fst (rev ps))" "distinct (map fst (rev ps'))"
    using assms(1) d by (simp_all add: rev_map [symmetric])
  moreover have "set (rev ps') = set (rev ps)" using s by simp
  ultimately show ?thesis by (simp add: map_of_inject_set)
qed

lemma Map_get_registers_perm:
  assumes "distinct (map fst ps)" "mset ps' = mset ps"
  shows "Map_get (services (registers ps' c)) k = Map_get (services (registers ps c)) k"
  by (simp add: Map_get_registers map_of_perm [OF assms])

lemma Map_get_registers_mem:
  assumes "distinct (map fst ps)" "(k, v) \<in> set ps"
  shows "Map_get (services (registers ps c)) k = v"
proof -
  have "distinct (map fst (rev ps))" using assms(1) by (simp add: rev_map [symmetric])
  moreover have "(k, v) \<in> set (rev ps)" using assms(2) by simp
  ultimately have "map_of (rev ps) k = Some v" by (rule map_of_is_SomeI)
  then show ?thesis by (simp add: Map_get_registers)
qed

lemma Map_get_run_other:
  "k \<notin> set (registered_keys xs) \<Longrightarrow>
   Map_get (services (run xs c)) k = Map_get (services c) k"
proof (induction xs arbitrary: c)
  case Nil
  show ?case by simp
next
  case (Cons x xs)
  then show ?case
    by (cases x) (simp_all add: services_register Map_get_Map_set snd_get)
qed

section \<open>Registration followed by retrieval\<close>

text \<open>
  C1 (as amended). For every container, every key \<open>k\<close> and every truthy value \<open>v\<close> (every
  object instance is truthy), \<open>get(k)\<close> called immediately after \<open>register(k, v)\<close>
  returns \<open>v\<close> itself (for an object, the same reference), and so does \<open>get(k)\<close> after
  any further calls that do not register \<open>k\<close> again.
\<close>

theorem register_then_get:
  "ToBoolean v \<Longrightarrow> k \<notin> set (registered_keys xs) \<Longrightarrow>
   fst (get (snd (register c k v)) k) = Inr v \<and>
   fst (get (run xs (snd (register c k v))) k) = Inr v"
  by (simp add: fst_get Map_get_run_other services_register Map_get_Map_set)

theorem register_then_get_witness:
  "ToBoolean (JObject 1) \<and>
   ''db'' \<notin> set (registered_keys [Get ''db'', Register ''cache'' JNull]) \<and>
   fst (get (snd (register new_DIContainer ''db'' (JObject 1))) ''db'') = Inr (JObject 1) \<and>
   fst (get (run [Get ''db'', Register ''cache'' JNull]
     (snd (register new_DIContainer ''db'' (JObject 1)))) ''db'') = Inr (JObject 1)"
  using register_then_get [of "JObject 1" "''db''" "[Get ''db'', Register ''cache'' JNull]"
    new_DIContainer]
  by simp

text \<open>
  The claim for every value fails at \<open>null\<close>: the key is registered, and \<open>get\<close> throws.
\<close>

theorem register_then_get_counterexample:
  "fst (get (snd (register new_DIContainer ''db'' JNull)) ''db'')
     = Inl (Error ''Service db not found'') \<and>
   fst (get (snd (register new_DIContainer ''db'' JNull)) ''db'') \<noteq> Inr JNull"
  by (simp add: get_def register_def new_DIContainer_def)

section \<open>Retrieval of a key that was never registered\<close>

text \<open>
  C2. On a container that was created empty and has gone through any sequence of calls,
  \<open>get(k)\<close> for a key \<open>k\<close> that none of these calls registered throws the error whose
  message names \<open>k\<close>, \<open>Service k not found\<close>; it returns no value, and it leaves the
  container as it was.
\<close>

theorem get_never_registered:
  "k \<notin> set (registered_keys xs) \<Longrightarrow>
   get (run xs new_DIContainer) k =
     (Inl (Error (''Service '' @ k @ '' not found'')), run xs new_DIContainer)"
proof -
  assume "k \<notin> set (registered_keys xs)"
  then have "k \<notin> set (map fst (services (run xs new_DIContainer)))"
    by (simp only: keys_run) (simp add: new_DIContainer_def)
  then have "Map_get (services (run xs new_DIContainer)) k = JUndefined"
    by (rule Map_get_absent)
  then show ?thesis by (simp add: get_def)
qed

theorem get_never_registered_witness:
  "''missing'' \<notin> set (registered_keys [Register ''db'' (JObject 1), Get ''db'']) \<and>
   get (run [Register ''db'' (JObject 1), Get ''db''] new_DIContainer) ''missing'' =
     (Inl (Error ''Service missing not found''),
      run [Register ''db'' (JObject 1), Get ''db''] new_DIContainer)"
  using get_never_registered [of "''missing''" "[Register ''db'' (JObject 1), Get ''db'']"]
  by simp

section \<open>Re-registration\<close>

text \<open>
  C3 (as amended). For every key \<open>k\<close>, every value \<open>v1\<close> and every truthy value \<open>v2\<close>:
  both calls of \<open>register\<close> complete normally, \<open>get(k)\<close> after \<open>register(k, v1)\<close> and
  \<open>register(k, v2)\<close> returns \<open>v2\<close>, and the container is the one that
  \<open>register(k, v2)\<close> alone would have left, so the later registration replaces the
  earlier one.
\<close>

theorem reregister_last_write_wins:
  "ToBoolean v2 \<Longrightarrow>
   fst (register c k v1) = Inr JUndefined \<and>
   fst (register (snd (register c k v1)) k v2) = Inr JUndefined \<and>
   fst (get (snd (register (snd (register c k v1)) k v2)) k) = Inr v2 \<and>
   snd (register (snd (register c k v1)) k v2) = snd (register c k v2)"
  by (simp add: fst_register register_register fst_get services_register Map_get_Map_set)

theorem reregister_last_write_wins_witness:
  "ToBoolean (JObject 2) \<and>
   fst (register new_DIContainer ''db'' (JObject 1)) = Inr JUndefined \<and>
   fst (register (snd (register new_DIContainer ''db'' (JObject 1))) ''db'' (JObject 2))
     = Inr JUndefined \<and>
   fst (get (snd (register (snd (register new_DIContainer ''db'' (JObject 1)))
     ''db'' (JObject 2))) ''db'') = Inr (JObject 2) \<and>
   snd (register (snd (register new_DIContainer ''db'' (JObject 1))) ''db'' (JObject 2))
     = snd (register new_DIContainer ''db'' (JObject 2))"
  using reregister_last_write_wins [of "JObject 2" new_DIContainer "''db''" "JObject 1"]
  by (simp add: get_def register_def new_DIContainer_def)

text \<open>
  The claim for every \<open>v2\<close> fails when the later value is \<open>false\<close>.
\<close>

theorem reregister_counterexample:
  "fst (get (snd (register (snd (register new_DIContainer ''db'' (JObject 1)))
     ''db'' (JBoolean False))) ''db'') = Inl (Error ''Service db not found'') \<and>
   fst (get (snd (register (snd (register new_DIContainer ''db'' (JObject 1)))
     ''db'' (JBoolean False))) ''db'') \<noteq> Inr (JBoolean False)"
  by (simp add: get_def register_def new_DIContainer_def)

section \<open>Distinct keys\<close>

text \<open>
  C4 (as amended). For all distinct keys \<open>k1\<close>, \<open>k2\<close> and all truthy values \<open>v1\<close>, \<open>v2\<close>:
  after \<open>register(k1, v1)\<close> and \<open>register(k2, v2)\<close>, \<open>get(k1)\<close> returns \<open>v1\<close> and
  \<open>get(k2)\<close> returns \<open>v2\<close>. Moreover a registration under a key \<open>k\<close>, of any value,
  leaves every other key \<open>k'\<close> as it was: the entries the map holds for \<open>k'\<close> and the
  completion of \<open>get(k')\<close> are unchanged.
\<close>

theorem register_distinct_keys:
  "k1 \<noteq> k2 \<Longrightarrow> ToBoolean v1 \<Longrightarrow> ToBoolean v2 \<Longrightarrow>
   fst (get (snd (register (snd (register c k1 v1)) k2 v2)) k1) = Inr v1 \<and>
   fst (get (snd (register (snd (register c k1 v1)) k2 v2)) k2) = Inr v2 \<and>
   (k' \<noteq> k \<longrightarrow>
      entries (services (snd (register d k v))) k' = entries (services d) k' \<and>
      fst (get (snd (register d k v)) k') = fst (get d k'))"
  by (simp add: fst_get services_register Map_get_Map_set entries_Map_set_other)

theorem register_distinct_keys_witness:
  "''db'' \<noteq> ''cache'' \<and> ToBoolean (JObject 1) \<and> ToBoolean (JObject 2) \<and>
   fst (get (snd (register (snd (register new_DIContainer ''db'' (JObject 1)))
     ''cache'' (JObject 2))) ''db'') = Inr (JObject 1) \<and>
   fst (get (snd (register (snd (register new_DIContainer ''db'' (JObject 1)))
     ''cache'' (JObject 2))) ''cache'') = Inr (JObject 2) \<and>
   entries (services (snd (register (snd (register new_DIContainer ''db'' (JObject 1)))
     ''cache'' JNull))) ''db'' = entries (services (snd (register new_DIContainer ''db''
     (JObject 1)))) ''db'' \<and>
   fst (get (snd (register (snd (register new_DIContainer ''db'' (JObject 1)))
     ''cache'' JNull)) ''db'') = fst (get (snd (register new_DIContainer ''db''
     (JObject 1))) ''db'')"
  using register_distinct_keys [of "''db''" "''cache''" "JObject 1" "JObject 2"
    new_DIContainer "''db''" "''cache''" "snd (register new_DIContainer ''db'' (JObject 1))"
    JNull]
  by (simp add: get_def register_def new_DIContainer_def entries_def)

text \<open>
  The claim for all values fails when the first value is the number zero.
\<close>

theorem register_distinct_keys_counterexample:
  "''db'' \<noteq> ''cache'' \<and>
   fst (get (snd (register (snd (register new_DIContainer ''db'' (JNumber (NumFinite 0))))
     ''cache'' (JObject 2))) ''db'') = Inl (Error ''Service db not found'') \<and>
   fst (get (snd (register (snd (register new_DIContainer ''db'' (JNumber (NumFinite 0))))
     ''cache'' (JObject 2))) ''db'') \<noteq> Inr (JNumber (NumFinite 0))"
  by (simp add: get_def register_def new_DIContainer_def)

section \<open>The scenario of the specification\<close>

text \<open>
  C5 (as amended). For truthy values \<open>A\<close>, \<open>B\<close>, \<open>C\<close> (such as three object instances):
  starting from an empty container, after \<open>register("db", A)\<close> and
  \<open>register("cache", B)\<close>, \<open>get("db")\<close> returns \<open>A\<close>; \<open>get("missing")\<close> throws the
  error naming \<open>missing\<close>; after \<open>register("db", C)\<close>, \<open>get("db")\<close> returns \<open>C\<close> and
  \<open>get("cache")\<close> still returns \<open>B\<close>.
\<close>

theorem scenario:
  "ToBoolean A \<Longrightarrow> ToBoolean B \<Longrightarrow> ToBoolean C \<Longrightarrow>
   fst (invoke (run [Register ''db'' A, Register ''cache'' B] new_DIContainer)
     (Get ''db'')) = Inr A \<and>
   fst (invoke (run [Register ''db'' A, Register ''cache'' B, Get ''db''] new_DIContainer)
     (Get ''missing'')) = Inl (Error ''Service missing not found'') \<and>
   fst (invoke (run [Register ''db'' A, Register ''cache'' B, Get ''db'', Get ''missing'',
     Register ''db'' C] new_DIContainer) (Get ''db'')) = Inr C \<and>
   fst (invoke (run [Register ''db'' A, Register ''cache'' B, Get ''db'', Get ''missing'',
     Register ''db'' C, Get ''db''] new_DIContainer) (Get ''cache'')) = Inr B"
  by (simp add: snd_get fst_get services_register new_DIContainer_def)

theorem scenario_witness:
  "ToBoolean (JObject 1) \<and> ToBoolean (JObject 2) \<and> ToBoolean (JObject 3) \<and>
   fst (invoke (run [Register ''db'' (JObject 1), Register ''cache'' (JObject 2)]
     new_DIContainer) (Get ''db'')) = Inr (JObject 1) \<and>
   fst (invoke (run [Register ''db'' (JObject 1), Register ''cache'' (JObject 2), Get ''db'']
     new_DIContainer) (Get ''missing'')) = Inl (Error ''Service missing not found'') \<and>
   fst (invoke (run [Register ''db'' (JObject 1), Register ''cache'' (JObject 2), Get ''db'',
     Get ''missing'', Register ''db'' (JObject 3)] new_DIContainer) (Get ''db''))
     = Inr (JObject 3) \<and>
   fst (invoke (run [Register ''db'' (JObject 1), Register ''cache'' (JObject 2), Get ''db'',
     Get ''missing'', Register ''db'' (JObject 3), Get ''db''] new_DIContainer)
     (Get ''cache'')) = Inr (JObject 2)"
  using scenario [of "JObject 1" "JObject 2" "JObject 3"] by simp

text \<open>
  The scenario with \<open>A = null\<close>: \<open>get("db")\<close> throws.
\<close>

theorem scenario_counterexample:
  "fst (invoke (run [Register ''db'' JNull, Register ''cache'' (JObject 2)]
     new_DIContainer) (Get ''db'')) = Inl (Error ''Service db not found'') \<and>
   fst (invoke (run [Register ''db'' JNull, Register ''cache'' (JObject 2)]
     new_DIContainer) (Get ''db'')) \<noteq> Inr JNull"
  by (simp add: get_def register_def new_DIContainer_def)

section \<open>Order independence\<close>

text \<open>
  C6 (as amended). For every list \<open>ps\<close> of key/value pairs with distinct keys, every
  reordering \<open>ps'\<close> of it and every list \<open>ks\<close> of keys: registering the pairs in the
  order of \<open>ps'\<close> and then querying the keys in the order of \<open>ks\<close> gives, for each key,
  the completion that \<open>get\<close> of this key alone gives after registering in the order of
  \<open>ps\<close>; and this completion is the key's registered value whenever that value is truthy.
\<close>

theorem order_independence:
  "distinct (map fst ps) \<Longrightarrow> mset ps' = mset ps \<Longrightarrow>
   fst (gets ks (registers ps' c)) = map (\<lambda>k. fst (get (registers ps c) k)) ks \<and>
   ((k, v) \<in> set ps \<and> ToBoolean v \<longrightarrow> fst (get (registers ps' c) k) = Inr v)"
proof -
  assume d: "distinct (map fst ps)" and p: "mset ps' = mset ps"
  have same: "fst (get (registers ps' c) k') = fst (get (registers ps c) k')" for k'
    by (simp add: fst_get Map_get_registers_perm [OF d p])
  have "fst (gets ks (registers ps' c)) = map (\<lambda>k. fst (get (registers ps c) k)) ks"
    by (simp add: fst_gets same)
  moreover have "fst (get (registers ps' c) k) = Inr v" if "(k, v) \<in> set ps" "ToBoolean v"
    using that
    by (simp add: fst_get Map_get_registers_perm [OF d p] Map_get_registers_mem [OF d])
  ultimately show ?thesis by blast
qed

theorem order_independence_witness:
  "distinct (map fst [(''a'', JObject 1), (''b'', JNull)]) \<and>
   mset [(''b'', JNull), (''a'', JObject 1)] = mset [(''a'', JObject 1), (''b'', JNull)] \<and>
   (''a'', JObject 1) \<in> set [(''a'', JObject 1), (''b'', JNull)] \<and> ToBoolean (JObject 1) \<and>
   fst (gets [''b'', ''c'', ''a''] (registers [(''b'', JNull), (''a'', JObject 1)]
     new_DIContainer)) =
   map (\<lambda>k. fst (get (registers [(''a'', JObject 1), (''b'', JNull)] new_DIContainer) k))
     [''b'', ''c'', ''a''] \<and>
   fst (get (registers [(''b'', JNull), (''a'', JObject 1)] new_DIContainer) ''a'')
     = Inr (JObject 1)"
  using order_independence [of "[(''a'', JObject 1), (''b'', JNull)]"
    "[(''b'', JNull), (''a'', JObject 1)]" "[''b'', ''c'', ''a'']" new_DIContainer "''a''"
    "JObject 1"]
  by simp

text \<open>
  The registered value is not what a query yields when it is the empty string.
\<close>

theorem order_independence_counterexample:
  "distinct (map fst [(''a'', JObject 1), (''b'', JString '''')]) \<and>
   fst (gets [''b'', ''a''] (registers [(''a'', JObject 1), (''b'', JString '''')]
     new_DIContainer)) = [Inl (Error ''Service b not found''), Inr (JObject 1)] \<and>
   fst (gets [''b'', ''a''] (registers [(''a'', JObject 1), (''b'', JString '''')]
     new_DIContainer)) \<noteq> [Inr (JString ''''), Inr (JObject 1)]"
  by (simp add: get_def register_def new_DIContainer_def Let_def)

section \<open>The invariant of the registry\<close>

text \<open>
  C7. In every container reached from the empty one by a sequence of calls, the map holds
  at most one entry for each key: for a key \<open>k\<close> the entries are exactly the value of the
  latest registration of \<open>k\<close>, or none if \<open>k\<close> was never registered. Each call,
  \<open>register\<close> or \<open>get\<close>, preserves that no key has two entries. And \<open>get\<close> of a key
  that was never registered throws; it returns no default.
\<close>

theorem registry_invariant:
  "distinct (map fst (services (run xs new_DIContainer))) \<and>
   entries (services (run xs new_DIContainer)) k =
     (case last_registered xs k of None \<Rightarrow> [] | Some v \<Rightarrow> [v]) \<and>
   (distinct (map fst (services c)) \<longrightarrow>
      distinct (map fst (services (snd (invoke c x))))) \<and>
   (last_registered xs k = None \<longrightarrow>
      fst (get (run xs new_DIContainer) k) = Inl (Error (''Service '' @ k @ '' not found'')))"
proof -
  have d0: "distinct (map fst (services new_DIContainer))"
    by (simp add: new_DIContainer_def)
  have "distinct (map fst (services (run xs new_DIContainer)))"
    using d0 by (rule distinct_run)
  moreover have "entries (services (run xs new_DIContainer)) k =
      (case last_registered xs k of None \<Rightarrow> [] | Some v \<Rightarrow> [v])"
    by (cases "last_registered xs k")
      (simp_all add: entries_run [OF d0], simp add: new_DIContainer_def entries_def)
  moreover have "fst (get (run xs new_DIContainer) k) =
      Inl (Error (''Service '' @ k @ '' not found''))" if "last_registered xs k = None"
  proof -
    from that have "k \<notin> set (registered_keys xs)" by (simp add: last_registered_None)
    then have "k \<notin> set (map fst (services (run xs new_DIContainer)))"
      by (simp only: keys_run) (simp add: new_DIContainer_def)
    then have "Map_get (services (run xs new_DIContainer)) k = JUndefined"
      by (rule Map_get_absent)
    then show ?thesis by (simp add: fst_get)
  qed
  ultimately show ?thesis using distinct_invoke [of c x] by blast
qed

theorem registry_invariant_witness:
  "distinct (map fst (services new_DIContainer)) \<and>
   distinct (map fst (services (snd (invoke new_DIContainer (Register ''db'' JNull))))) \<and>
   last_registered [Register ''db'' (JObject 1), Get ''cache'', Register ''db'' (JObject 2)]
     ''cache'' = None \<and>
   fst (get (run [Register ''db'' (JObject 1), Get ''cache'', Register ''db'' (JObject 2)]
     new_DIContainer) ''cache'') = Inl (Error ''Service cache not found'') \<and>
   distinct (map fst (services (run [Register ''db'' (JObject 1), Get ''cache'',
     Register ''db'' (JObject 2)] new_DIContainer))) \<and>
   entries (services (run [Register ''db'' (JObject 1), Get ''cache'',
     Register ''db'' (JObject 2)] new_DIContainer)) ''cache'' = []"
  using registry_invariant [of "[Register ''db'' (JObject 1), Get ''cache'',
    Register ''db'' (JObject 2)]" "''cache''" new_DIContainer "Register ''db'' JNull"]
  by (simp add: new_DIContainer_def)

section \<open>Totality of register\<close>

text \<open>
  C8. For every container, key and value, \<open>register\<close> completes normally (with
  \<open>undefined\<close>, being \<open>void\<close>). If a call of either method throws, the call is a
  \<open>get\<close> and the error is its not-found error for the key asked.
\<close>

theorem register_total:
  "fst (register c k v) = Inr JUndefined \<and>
   (fst (invoke c x) = Inl e \<longrightarrow>
      (case x of
         Register name service \<Rightarrow> False
       | Get name \<Rightarrow> e = Error (''Service '' @ name @ '' not found'')))"
  by (cases x) (auto simp: fst_register fst_get split: if_splits)

theorem register_total_witness:
  "fst (invoke new_DIContainer (Get ''missing'')) = Inl (Error ''Service missing not found'') \<and>
   fst (register new_DIContainer ''db'' JNull) = Inr JUndefined"
  using register_total [of new_DIContainer "''db''" JNull "Get ''missing''"
    "Error ''Service missing not found''"]
  by (simp add: get_def new_DIContainer_def)

section \<open>Retrieval does not write\<close>

text \<open>
  C9. For every container and key, \<open>get\<close> leaves the container exactly as it was, whether
  it returns the stored value or throws the not-found error.
\<close>

theorem get_read_only:
  "snd (get c k) = c \<and>
   (get c k = (Inr (Map_get (services c) k), c) \<or>
    get c k = (Inl (Error (''Service '' @ k @ '' not found'')), c))"
  by (simp add: get_def Let_def)

section \<open>Registered falsy values\<close>

text \<open>
  C10. For every key \<open>k\<close> registered with a falsy value \<open>v\<close> (such as \<open>null\<close>,
  \<open>undefined\<close>, \<open>0\<close>, the empty string or \<open>false\<close>), after any further calls that do
  not register \<open>k\<close> again the map still has \<open>k\<close> with value \<open>v\<close>, and \<open>get(k)\<close> throws
  the not-found error.
\<close>

theorem get_falsy_registered:
  "\<not> ToBoolean v \<Longrightarrow> k \<notin> set (registered_keys xs) \<Longrightarrow>
   Map_has (services (run xs (snd (register c k v)))) k \<and>
   Map_get (services (run xs (snd (register c k v)))) k = v \<and>
   fst (get (run xs (snd (register c k v))) k) = Inl (Error (''Service '' @ k @ '' not found''))"
  by (simp add: fst_get Map_get_run_other services_register Map_get_Map_set Map_has_keys
      keys_run keys_Map_set del: set_map)

theorem get_falsy_registered_witness:
  "\<not> ToBoolean JNull \<and> \<not> ToBoolean JUndefined \<and> \<not> ToBoolean (JNumber (NumFinite 0)) \<and>
   \<not> ToBoolean (JString '''') \<and> \<not> ToBoolean (JBoolean False) \<and>
   ''db'' \<notin> set (registered_keys []) \<and>
   ''db'' \<notin> set (registered_keys [Register ''cache'' (JObject 1)]) \<and>
   Map_has (services (run [] (snd (register new_DIContainer ''db'' JNull)))) ''db'' \<and>
   fst (get (run [] (snd (register new_DIContainer ''db'' JNull))) ''db'')
     = Inl (Error ''Service db not found'') \<and>
   fst (get (run [] (snd (register new_DIContainer ''db'' JUndefined))) ''db'')
     = Inl (Error ''Service db not found'') \<and>
   fst (get (run [] (snd (register new_DIContainer ''db'' (JNumber (NumFinite 0))))) ''db'')
     = Inl (Error ''Service db not found'') \<and>
   fst (get (run [] (snd (register new_DIContainer ''db'' (JString '''')))) ''db'')
     = Inl (Error ''Service db not found'') \<and>
   fst (get (run [Register ''cache'' (JObject 1)]
     (snd (register new_DIContainer ''db'' (JBoolean False)))) ''db'')
     = Inl (Error ''Service db not found'')"
  using get_falsy_registered [of JNull "''db''" "[]" new_DIContainer]
    get_falsy_registered [of JUndefined "''db''" "[]" new_DIContainer]
    get_falsy_registered [of "JNumber (NumFinite 0)" "''db''" "[]" new_DIContainer]
    get_falsy_registered [of "JString ''''" "''db''" "[]" new_DIContainer]
    get_falsy_registered [of "JBoolean False" "''db''" "[Register ''cache'' (JObject 1)]"
      new_DIContainer]
  by simp

end
